theory Spec2Isabelle
  imports Main "HOL-Library.Monad_Syntax"
begin

section \<open>Decision diagrams\<close>

text \<open>
  The diagram manager is external to \<^verbatim>\<open>support.hpp\<close>. A handle is modelled by the term
  of manager calls that produced it: \<^verbatim>\<open>bdd_true()\<close>, \<^verbatim>\<open>bdd_false()\<close>,
  \<^verbatim>\<open>manager.bddpos(i)\<close>, \<^verbatim>\<open>manager.negbddpos(i)\<close>, \<^verbatim>\<open>manager.ite(a,b,c)\<close> and
  the conjunction \<^verbatim>\<open>a & b\<close>. The boolean function a handle denotes is \<open>eval\<close>.
\<close>

datatype bdd = BTrue | BFalse | Pos int | Neg int | Ite bdd bdd bdd | And bdd bdd

fun eval :: "(int \<Rightarrow> bool) \<Rightarrow> bdd \<Rightarrow> bool" where
  "eval env BTrue = True"
| "eval env BFalse = False"
| "eval env (Pos i) = env i"
| "eval env (Neg i) = (\<not> env i)"
| "eval env (Ite a b c) = (if eval env a then eval env b else eval env c)"
| "eval env (And a b) = (eval env a \<and> eval env b)"

section \<open>Set views\<close>

text \<open>
  Modelled from the spec: the view classes are not part of the source. A view exposes its
  first diagram slot \<open>offset\<close>, its slot count \<open>tableWidth\<close>, its original bounds and the
  values of its current upper bound (what \<^verbatim>\<open>Set::LubRanges\<close> iterates, in increasing order).
  \<^verbatim>\<open>x.element(i)\<close> is the positive literal of slot \<open>offset + i\<close> and \<^verbatim>\<open>x.elementNeg(i)\<close>
  the negative one, as \<^verbatim>\<open>cardConst\<close> spells it out with \<^verbatim>\<open>manager.bddpos(xoff + k - xmin)\<close>.
\<close>

record view =
  offset :: nat
  tableWidth :: nat
  initialLubMin :: int
  initialLubMax :: int
  lubValues :: "int list"

definition element :: "view \<Rightarrow> int \<Rightarrow> bdd" where
  "element x i = Pos (int (offset x) + i)"

definition elementNeg :: "view \<Rightarrow> int \<Rightarrow> bdd" where
  "elementNeg x i = Neg (int (offset x) + i)"

text \<open>
  Modelled from the spec: \<^verbatim>\<open>Iter::Ranges::Inter\<close> followed by \<^verbatim>\<open>Iter::Ranges::ToValues\<close>
  yields the common values of the two upper bounds in increasing order.
\<close>

definition common_values :: "view \<Rightarrow> view \<Rightarrow> int list" where
  "common_values x y = filter (\<lambda>v. v \<in> set (lubValues y)) (lubValues x)"

section \<open>Arrays\<close>

text \<open>Array accesses outside the allocated range are undefined behaviour: \<open>None\<close>.\<close>

definition rd :: "'a list \<Rightarrow> int \<Rightarrow> 'a option" where
  "rd xs i = (if 0 \<le> i \<and> i < int (length xs) then Some (xs ! nat i) else None)"

definition wr :: "'a list \<Rightarrow> int \<Rightarrow> 'a \<Rightarrow> 'a list option" where
  "wr xs i v = (if 0 \<le> i \<and> i < int (length xs) then Some (xs[nat i := v]) else None)"

text \<open>\<^verbatim>\<open>Support::DynamicArray\<close> grows on demand when written past its end.\<close>

definition dyn_set :: "int list \<Rightarrow> nat \<Rightarrow> int \<Rightarrow> int list" where
  "dyn_set d j v =
     (if j < length d then d[j := v] else d @ replicate (j - length d) 0 @ [v])"

section \<open>ValCache\<close>

text \<open>
  The fields \<^verbatim>\<open>r\<close>, \<^verbatim>\<open>c\<close>, \<^verbatim>\<open>n\<close>, \<^verbatim>\<open>s\<close> of the class, prefixed to keep the
  one-letter names free for variables.
\<close>

record ValCache =
  vc_r :: "int list"
  vc_c :: int
  vc_n :: int
  vc_s :: int

text \<open>The \<^verbatim>\<open>while (i())\<close> loop of \<^verbatim>\<open>init\<close>; the source iterator is the list of values it yields.\<close>

fun init_drain :: "int list \<Rightarrow> int list \<Rightarrow> nat \<Rightarrow> int \<Rightarrow> int list \<times> nat \<times> int" where
  "init_drain [] d j s = (d, j, s)"
| "init_drain (v # i) d j s = init_drain i (dyn_set d j v) (Suc j) (s + 1)"

text \<open>The loop \<^verbatim>\<open>for (int j = n; j--; ) r[j] = d[j];\<close>.\<close>

fun init_copy :: "nat \<Rightarrow> int list \<Rightarrow> int list \<Rightarrow> int list" where
  "init_copy 0 d r = r"
| "init_copy (Suc j) d r = init_copy j d (r[j := d ! j])"

definition vc_init :: "int list \<Rightarrow> ValCache" where
  "vc_init i =
     (case init_drain i [] 0 0 of (d, j, s) \<Rightarrow>
        \<lparr>vc_r = init_copy j d (replicate j 0), vc_c = 0, vc_n = int j, vc_s = s\<rparr>)"

definition vc_inc :: "ValCache \<Rightarrow> ValCache" where
  "vc_inc C = C\<lparr>vc_c := vc_c C + 1\<rparr>"

definition vc_dec :: "ValCache \<Rightarrow> ValCache" where
  "vc_dec C = C\<lparr>vc_c := vc_c C - 1\<rparr>"

definition vc_valid :: "ValCache \<Rightarrow> bool" where
  "vc_valid C = (-1 < vc_c C \<and> vc_c C < vc_n C)"

definition vc_reset :: "ValCache \<Rightarrow> ValCache" where
  "vc_reset C = C\<lparr>vc_c := 0\<rparr>"

definition vc_last :: "ValCache \<Rightarrow> ValCache" where
  "vc_last C = C\<lparr>vc_c := vc_n C - 1\<rparr>"

definition vc_finish :: "ValCache \<Rightarrow> ValCache" where
  "vc_finish C = C\<lparr>vc_c := -1\<rparr>"

text \<open>\<^verbatim>\<open>min\<close>, \<^verbatim>\<open>max\<close> and \<^verbatim>\<open>val\<close> all read \<^verbatim>\<open>r[c]\<close>.\<close>

definition vc_min :: "ValCache \<Rightarrow> int option" where
  "vc_min C = rd (vc_r C) (vc_c C)"

definition vc_max :: "ValCache \<Rightarrow> int option" where
  "vc_max C = rd (vc_r C) (vc_c C)"

definition vc_val :: "ValCache \<Rightarrow> int option" where
  "vc_val C = rd (vc_r C) (vc_c C)"

definition vc_width :: "ValCache \<Rightarrow> nat" where
  "vc_width C = 1"

definition vc_size :: "ValCache \<Rightarrow> nat" where
  "vc_size C = nat (vc_s C)"

text \<open>
  \<^verbatim>\<open>index(i)\<close> and \<^verbatim>\<open>index()\<close> pass the cursor through \<^verbatim>\<open>unsigned int\<close>; the conversion
  there and back is the identity on the cursor, so the model keeps it an \<open>int\<close>.
\<close>

definition vc_index_set :: "int \<Rightarrow> ValCache \<Rightarrow> ValCache" where
  "vc_index_set i C = C\<lparr>vc_c := i\<rparr>"

definition vc_index :: "ValCache \<Rightarrow> int" where
  "vc_index C = vc_c C"

section \<open>Loops\<close>

text \<open>
  \<^verbatim>\<open>for (int i = a; i < n; i++) body\<close>, where the body may \<^verbatim>\<open>break\<close> (second component
  \<open>True\<close>) or run into undefined behaviour (\<open>None\<close>).
\<close>

function for_loop :: "(int \<Rightarrow> 's \<Rightarrow> ('s \<times> bool) option) \<Rightarrow> int \<Rightarrow> int \<Rightarrow> 's \<Rightarrow> 's option" where
  "for_loop body i n s =
     (if i < n then
        (case body i s of
           None \<Rightarrow> None
         | Some (s', brk) \<Rightarrow> if brk then Some s' else for_loop body (i + 1) n s')
      else Some s)"
  by pat_completeness auto
termination
  by (relation "measure (\<lambda>(body, i, n, s). nat (n - i))") auto

declare for_loop.simps [simp del]

type_synonym build = "bdd list \<times> ValCache"

text \<open>
  The outer loops of the builders all have the shape
  \<^verbatim>\<open>for (; inter(); --inter) { pos = inter.index(); inner; if (!inter()) break; inter.index(pos); }\<close>.
\<close>

function cache_loop :: "(build \<Rightarrow> build option) \<Rightarrow> build \<Rightarrow> build option" where
  "cache_loop inner st =
     (if vc_valid (snd st) then
        (let pos = vc_index (snd st) in
         case inner st of
           None \<Rightarrow> None
         | Some (layer, cache) \<Rightarrow>
             if \<not> vc_valid cache then Some (layer, cache)
             else cache_loop inner (layer, vc_dec (vc_index_set pos cache)))
      else Some st)"
  by pat_completeness auto
termination
  by (relation "measure (\<lambda>(inner, st). nat (vc_c (snd st) + 1))")
     (auto simp: vc_valid_def vc_dec_def vc_index_set_def vc_index_def)

declare cache_loop.simps [simp del]

section \<open>extcardeq\<close>

definition eq_seed :: "view \<Rightarrow> view \<Rightarrow> int \<Rightarrow> int \<Rightarrow> int \<Rightarrow> build \<Rightarrow> (build \<times> bool) option" where
  "eq_seed x y xmin ymin i st =
     (case st of (layer, cache) \<Rightarrow>
        do {
          k \<leftarrow> vc_min cache;
          layer' \<leftarrow> wr layer i (And (element x (k - xmin)) (element y (k - ymin)));
          Some ((layer', cache), False)
        })"

definition eq_connect :: "int \<Rightarrow> bdd list \<Rightarrow> (bdd list \<times> bool) option" where
  "eq_connect i layer =
     do {
       a \<leftarrow> rd layer i;
       b \<leftarrow> rd layer (i - 1);
       layer' \<leftarrow> wr layer i (Ite a b BFalse);
       Some (layer', False)
     }"

definition eq_inner :: "view \<Rightarrow> view \<Rightarrow> int \<Rightarrow> int \<Rightarrow> int \<Rightarrow> build \<Rightarrow> (build \<times> bool) option" where
  "eq_inner x y xmin ymin i st =
     (case st of (layer, cache) \<Rightarrow>
        do {
          col \<leftarrow> vc_min cache;
          t \<leftarrow> (if i = 0 then Some BFalse else rd layer (i - 1));
          li \<leftarrow> rd layer i;
          let both = Ite (element y (col - ymin)) t li;
          layer' \<leftarrow> wr layer i (Ite (element x (col - xmin)) both li);
          let cache' = vc_dec cache;
          Some ((layer', cache'), \<not> vc_valid cache')
        })"

definition extcardeq :: "ValCache \<Rightarrow> view \<Rightarrow> view \<Rightarrow> nat \<Rightarrow> int \<Rightarrow> int \<Rightarrow> (bdd \<times> ValCache) option" where
  "extcardeq cache x y c n r =
     (let xmin = initialLubMin x; ymin = initialLubMin y in
      do {
        layer \<leftarrow> wr (replicate (nat n) BFalse) 0 BTrue;
        st \<leftarrow> for_loop (eq_seed x y xmin ymin) 1 (int c + 1) (layer, vc_last cache);
        layer \<leftarrow> for_loop eq_connect 1 n (fst st);
        st \<leftarrow> cache_loop (for_loop (eq_inner x y xmin ymin) 0 n) (layer, vc_last (snd st));
        b \<leftarrow> rd (fst st) (n - 1);
        Some (b, snd st)
      })"

section \<open>extcardlqgq\<close>

definition lq_seed :: "view \<Rightarrow> view \<Rightarrow> int \<Rightarrow> int \<Rightarrow> int \<Rightarrow> build \<Rightarrow> (build \<times> bool) option" where
  "lq_seed x y xmin ymin i st =
     (case st of (layer, cache) \<Rightarrow>
        do {
          k \<leftarrow> vc_min cache;
          p \<leftarrow> rd layer (i - 1);
          let both = Ite (element y (k - ymin)) p BFalse;
          layer' \<leftarrow> wr layer i (Ite (element x (k - xmin)) both BFalse);
          Some ((layer', vc_dec cache), False)
        })"

definition lq_lower :: "view \<Rightarrow> view \<Rightarrow> int \<Rightarrow> int \<Rightarrow> nat \<Rightarrow> int \<Rightarrow> int \<Rightarrow> build \<Rightarrow> (build \<times> bool) option" where
  "lq_lower x y xmin ymin cr r i st =
     (case st of (layer, cache) \<Rightarrow>
        do {
          col \<leftarrow> vc_min cache;
          t \<leftarrow> rd layer (i - 1);
          li \<leftarrow> rd layer i;
          let both = Ite (element y (col - ymin)) t li;
          layer' \<leftarrow> wr layer i (Ite (element x (col - xmin)) both li);
          let cache' = vc_dec cache;
          if vc_index cache' + 1 < r + 1 - int cr
          then Some ((layer', vc_finish cache'), True)
          else Some ((layer', cache'), False)
        })"

text \<open>The loops of the \<^verbatim>\<open>cr == r\<close> branch and of the connection layer carry \<^verbatim>\<open>t\<close> and \<^verbatim>\<open>f\<close> along.\<close>

definition lq_single :: "view \<Rightarrow> view \<Rightarrow> int \<Rightarrow> int \<Rightarrow> nat \<Rightarrow> int \<Rightarrow> int \<Rightarrow> build \<times> bdd \<times> bdd
    \<Rightarrow> ((build \<times> bdd \<times> bdd) \<times> bool) option" where
  "lq_single x y xmin ymin cl n i st =
     (case st of ((layer, cache), t, f) \<Rightarrow>
        do {
          col \<leftarrow> vc_min cache;
          (t, f) \<leftarrow>
            (if i = 0 then Some (BFalse, BTrue)
             else do {
               t \<leftarrow> rd layer (i - 1);
               f \<leftarrow> (if i > n - int cl - 1 then rd layer i else Some f);
               Some (t, f)
             });
          let both = Ite (element y (col - ymin)) t f;
          layer' \<leftarrow> wr layer i (Ite (element x (col - xmin)) both f);
          let cache' = vc_dec cache;
          Some (((layer', cache'), t, f), \<not> vc_valid cache')
        })"

definition lq_connect :: "view \<Rightarrow> view \<Rightarrow> int \<Rightarrow> int \<Rightarrow> nat \<Rightarrow> int \<Rightarrow> int \<Rightarrow> build \<times> bdd \<times> bdd
    \<Rightarrow> ((build \<times> bdd \<times> bdd) \<times> bool) option" where
  "lq_connect x y xmin ymin cl n i st =
     (case st of ((layer, cache), t, f) \<Rightarrow>
        do {
          col \<leftarrow> vc_min cache;
          (t, f) \<leftarrow>
            (if i = 0 then Some (BFalse, f)
             else do {
               t \<leftarrow> rd layer (i - 1);
               f \<leftarrow> (if i > n - int cl - 1 \<and> cl > 0 then rd layer i else Some f);
               Some (t, f)
             });
          let both = Ite (element y (col - ymin)) t f;
          layer' \<leftarrow> wr layer i (Ite (element x (col - xmin)) both f);
          let cache' = vc_dec cache;
          Some (((layer', cache'), t, f), \<not> vc_valid cache')
        })"

definition lq_upper :: "view \<Rightarrow> view \<Rightarrow> int \<Rightarrow> int \<Rightarrow> int \<Rightarrow> build \<Rightarrow> (build \<times> bool) option" where
  "lq_upper x y xmin ymin i st =
     (case st of (layer, cache) \<Rightarrow>
        do {
          col \<leftarrow> vc_min cache;
          t \<leftarrow> (if i = 0 then Some BFalse else rd layer (i - 1));
          li \<leftarrow> rd layer i;
          let both = And (element y (col - ymin)) (element x (col - xmin));
          layer' \<leftarrow> wr layer i (Ite both t li);
          let cache' = vc_dec cache;
          Some ((layer', cache'), \<not> vc_valid cache')
        })"

text \<open>The code up to and including the loop that builds the layers below the connection layer.\<close>

definition lq_phase1 :: "ValCache \<Rightarrow> view \<Rightarrow> view \<Rightarrow> nat \<Rightarrow> nat \<Rightarrow> int \<Rightarrow> int \<Rightarrow> build option" where
  "lq_phase1 cache x y cl cr n r =
     do {
       layer \<leftarrow> wr (replicate (nat n) BFalse) (n - int cl - 1) BTrue;
       let cache = vc_last cache;
       k \<leftarrow> vc_min cache;
       let xmin = initialLubMin x;
       let ymin = initialLubMin y;
       st \<leftarrow> for_loop (lq_seed x y xmin ymin) (n - int cl) n (layer, cache);
       cache_loop (for_loop (lq_lower x y xmin ymin cr r) (n - int cl) n)
         (fst st, vc_dec (vc_last (snd st)))
     }"

text \<open>The branch \<^verbatim>\<open>if ((int) cr == r)\<close>.\<close>

definition lq_single_pass :: "view \<Rightarrow> view \<Rightarrow> nat \<Rightarrow> int \<Rightarrow> build \<Rightarrow> build option" where
  "lq_single_pass x y cl n st =
     (let cache = vc_last (snd st); xmin = initialLubMin x; ymin = initialLubMin y in
      do {
        col \<leftarrow> vc_min cache;
        st' \<leftarrow> for_loop (lq_single x y xmin ymin cl n) 0 n ((fst st, cache), BTrue, BTrue);
        Some (fst st')
      })"

text \<open>The code after that branch: the connection layer, then the remaining layers.\<close>

definition lq_two_phase :: "view \<Rightarrow> view \<Rightarrow> nat \<Rightarrow> int \<Rightarrow> build \<Rightarrow> build option" where
  "lq_two_phase x y cl n st =
     (let cache = vc_last (snd st); xmin = initialLubMin x; ymin = initialLubMin y in
      do {
        st' \<leftarrow> for_loop (lq_connect x y xmin ymin cl n) 0 n ((fst st, cache), BTrue, BTrue);
        let (layer, cache) = fst st';
        cache_loop (for_loop (lq_upper x y xmin ymin) 0 n) (layer, vc_dec (vc_last cache))
      })"

text \<open>The whole builder, returning the final layer array and cache.\<close>

definition extcardlqgq_state :: "ValCache \<Rightarrow> view \<Rightarrow> view \<Rightarrow> nat \<Rightarrow> nat \<Rightarrow> int \<Rightarrow> int \<Rightarrow> build option" where
  "extcardlqgq_state cache x y cl cr n r =
     do {
       st \<leftarrow> lq_phase1 cache x y cl cr n r;
       if int cr = r + 1 then Some st
       else if int cr = r then lq_single_pass x y cl n st
       else lq_two_phase x y cl n st
     }"

definition extcardlqgq :: "ValCache \<Rightarrow> view \<Rightarrow> view \<Rightarrow> nat \<Rightarrow> nat \<Rightarrow> int \<Rightarrow> int \<Rightarrow> (bdd \<times> ValCache) option" where
  "extcardlqgq cache x y cl cr n r =
     do {
       st \<leftarrow> extcardlqgq_state cache x y cl cr n r;
       b \<leftarrow> rd (fst st) (n - 1);
       Some (b, snd st)
     }"

section \<open>extcardcheck\<close>

text \<open>
  The loops \<^verbatim>\<open>for (; inter(); ++inter)\<close> of the two fast paths; \<open>lit\<close> is \<open>elementNeg\<close> for the
  empty set and \<open>element\<close> for the full set. A failed \<^verbatim>\<open>assert\<close> aborts: \<open>None\<close>.
\<close>

function conj_loop :: "(view \<Rightarrow> int \<Rightarrow> bdd) \<Rightarrow> view \<Rightarrow> view \<Rightarrow> bdd \<Rightarrow> ValCache \<Rightarrow> (bdd \<times> ValCache) option" where
  "conj_loop lit x y acc cache =
     (if vc_valid cache then
        (case vc_min cache of
           None \<Rightarrow> None
         | Some v \<Rightarrow>
             if v \<ge> initialLubMin x \<and> v \<le> initialLubMax x \<and>
                v \<ge> initialLubMin y \<and> v \<le> initialLubMax y
             then conj_loop lit x y
                    (And acc (And (lit x (v - initialLubMin x)) (lit y (v - initialLubMin y))))
                    (vc_inc cache)
             else None)
      else Some (acc, cache))"
  by pat_completeness auto
termination
  by (relation "measure (\<lambda>(lit, x, y, acc, cache). nat (vc_n cache - vc_c cache))")
     (auto simp: vc_valid_def vc_inc_def)

declare conj_loop.simps [simp del]

definition extcardcheck :: "view \<Rightarrow> view \<Rightarrow> nat \<Rightarrow> nat \<Rightarrow> bdd option" where
  "extcardcheck x y cl cr =
     (let cache = vc_init (common_values x y);
          isize = vc_size cache;
          cr = (if cr > isize then isize else cr);
          r = int isize - 1;
          n = int cr + 1
      in
        if cl > isize \<or> cl > cr then Some BFalse
        else if cr = 0 then map_option fst (conj_loop elementNeg x y BTrue cache)
        else if cl = cr then
          (if cr = isize then map_option fst (conj_loop element x y BTrue cache)
           else map_option fst (extcardeq cache x y cr n r))
        else if cr = isize \<and> cl = 0 then Some BTrue
        else map_option fst (extcardlqgq cache x y cl cr n r))"

section \<open>testConsistency\<close>

datatype failure = VariableFailedDomain | VariableOutOfRangeDomain | VariableOutOfRangeCardinality

text \<open>
  Modelled from the spec: \<^verbatim>\<open>IntSet\<close> and \<^verbatim>\<open>Set::Limits\<close> are not part of the source. An
  \<^verbatim>\<open>IntSet\<close> is its list of ranges in increasing order; \<^verbatim>\<open>size()\<close> is positive exactly when
  the set is non-empty, \<^verbatim>\<open>min()\<close> is the lower bound of the first range and \<^verbatim>\<open>max()\<close> the upper
  bound of the last one. The global limits are parameters.
\<close>

type_synonym IntSet = "(int \<times> int) list"

definition is_size :: "IntSet \<Rightarrow> nat" where
  "is_size rs = length rs"

definition is_min :: "IntSet \<Rightarrow> int" where
  "is_min rs = fst (hd rs)"

definition is_max :: "IntSet \<Rightarrow> int" where
  "is_max rs = snd (last rs)"

record limits =
  lim_min :: int
  lim_max :: int
  lim_card :: nat

text \<open>A \<^verbatim>\<open>throw\<close> is \<open>Inl\<close>; returning normally is \<open>Inr ()\<close>.\<close>

definition testConsistency :: "limits \<Rightarrow> IntSet \<Rightarrow> IntSet \<Rightarrow> int \<Rightarrow> int \<Rightarrow> failure + unit" where
  "testConsistency L glb lub cardMin cardMax =
     (let glbNonZero = is_size glb > 0;
          lubNonZero = is_size lub > 0
      in
        if glbNonZero \<and> (\<not> lubNonZero \<or> is_min glb > is_max glb)
          then Inl VariableFailedDomain
        else if glbNonZero \<and> (is_min glb < lim_min L \<or> is_max glb > lim_max L)
          then Inl VariableOutOfRangeDomain
        else if glbNonZero \<and>
                ((is_min glb < is_min lub \<or> is_min glb > is_max lub) \<or>
                 (is_max glb > is_max lub \<or> is_max glb < is_min lub))
          then Inl VariableFailedDomain
        else if lubNonZero \<and> (is_min lub < lim_min L \<or> is_max lub > lim_max L)
          then Inl VariableOutOfRangeDomain
        else if lubNonZero \<and> is_min lub > is_max lub
          then Inl VariableFailedDomain
        else if cardMax < 0
          then Inl VariableFailedDomain
        else if nat cardMax > lim_card L
          then Inl VariableOutOfRangeCardinality
        else if cardMin > cardMax \<or> cardMin < 0
          then Inl VariableFailedDomain
        else Inr ())"

section \<open>variableorder\<close>






section \<open>Reference notions for the properties\<close>

text \<open>
  The slot that stands for the value \<open>v\<close> in the view \<open>x\<close>, and the number of common values
  that an assignment of the slots puts into both sets.
\<close>

definition slot :: "view \<Rightarrow> int \<Rightarrow> int" where
  "slot x v = int (offset x) + (v - initialLubMin x)"

definition in_both :: "view \<Rightarrow> view \<Rightarrow> (int \<Rightarrow> bool) \<Rightarrow> int \<Rightarrow> bool" where
  "in_both x y env v = (env (slot x v) \<and> env (slot y v))"

definition shared_count :: "view \<Rightarrow> view \<Rightarrow> (int \<Rightarrow> bool) \<Rightarrow> nat" where
  "shared_count x y env = length (filter (in_both x y env) (common_values x y))"

text \<open>The assignment that sets exactly the slots listed.\<close>

definition env_of :: "int list \<Rightarrow> int \<Rightarrow> bool" where
  "env_of slots i = (i \<in> set slots)"

text \<open>Reading a cache from the cursor to the end, forwards and backwards.\<close>

function traverse_fwd :: "ValCache \<Rightarrow> int list option" where
  "traverse_fwd C =
     (if vc_valid C then
        (case vc_val C of
           None \<Rightarrow> None
         | Some v \<Rightarrow> map_option ((#) v) (traverse_fwd (vc_inc C)))
      else Some [])"
  by pat_completeness auto
termination
  by (relation "measure (\<lambda>C. nat (vc_n C - vc_c C))") (auto simp: vc_valid_def vc_inc_def)

function traverse_bwd :: "ValCache \<Rightarrow> int list option" where
  "traverse_bwd C =
     (if vc_valid C then
        (case vc_val C of
           None \<Rightarrow> None
         | Some v \<Rightarrow> map_option ((#) v) (traverse_bwd (vc_dec C)))
      else Some [])"
  by pat_completeness auto
termination
  by (relation "measure (\<lambda>C. nat (vc_c C + 1))") (auto simp: vc_valid_def vc_dec_def)

declare traverse_fwd.simps [simp del] traverse_bwd.simps [simp del]

datatype cursor_op = Advance | Retreat | Reset | Last | Finish | Seek int

fun cursor_step :: "ValCache \<Rightarrow> cursor_op \<Rightarrow> ValCache" where
  "cursor_step C Advance = vc_inc C"
| "cursor_step C Retreat = vc_dec C"
| "cursor_step C Reset = vc_reset C"
| "cursor_step C Last = vc_last C"
| "cursor_step C Finish = vc_finish C"
| "cursor_step C (Seek i) = vc_index_set i C"

text \<open>The conjunction the two fast paths of \<^verbatim>\<open>extcardcheck\<close> accumulate over the values \<open>vs\<close>.\<close>

definition conj_all :: "(view \<Rightarrow> int \<Rightarrow> bdd) \<Rightarrow> view \<Rightarrow> view \<Rightarrow> bdd \<Rightarrow> int list \<Rightarrow> bdd" where
  "conj_all lit x y acc vs =
     foldl (\<lambda>a v. And a (And (lit x (v - initialLubMin x)) (lit y (v - initialLubMin y)))) acc vs"

text \<open>Every common value lies within the original bounds of both views (the \<^verbatim>\<open>assert\<close>s).\<close>

definition within_bounds :: "view \<Rightarrow> view \<Rightarrow> bool" where
  "within_bounds x y =
     list_all (\<lambda>v. v \<ge> initialLubMin x \<and> v \<le> initialLubMax x \<and>
                    v \<ge> initialLubMin y \<and> v \<le> initialLubMax y) (common_values x y)"

text \<open>Example inputs: a view over \<open>m\<close> slots from \<open>off\<close> whose upper bound is \<open>lo, ..., lo + m - 1\<close>.\<close>

definition range_view :: "nat \<Rightarrow> int \<Rightarrow> nat \<Rightarrow> view" where
  "range_view off lo m =
     \<lparr>offset = off, tableWidth = m, initialLubMin = lo, initialLubMax = lo + int m - 1,
      lubValues = map (\<lambda>i. lo + int i) [0..<m]\<rparr>"

text \<open>Example limits: those of a build with 32-bit integers.\<close>

definition limits32 :: limits where
  "limits32 = \<lparr>lim_min = - 1073741822, lim_max = 1073741822, lim_card = 2147483645\<rparr>"

text \<open>The layer array keeps its length and the cache its contents.\<close>

definition framed :: "nat \<Rightarrow> ValCache \<Rightarrow> build \<Rightarrow> bool" where
  "framed k C st =
     (length (fst st) = k \<and> vc_r (snd st) = vc_r C \<and> vc_n (snd st) = vc_n C \<and>
      vc_s (snd st) = vc_s C)"




text \<open>The slots a diagram tests, and the assignment given by the bits of the first slots.\<close>

fun vars :: "bdd \<Rightarrow> int list" where
  "vars BTrue = []"
| "vars BFalse = []"
| "vars (Pos i) = [i]"
| "vars (Neg i) = [i]"
| "vars (Ite a b c) = vars a @ vars b @ vars c"
| "vars (And a b) = vars a @ vars b"

definition env_bits :: "bool list \<Rightarrow> int \<Rightarrow> bool" where
  "env_bits bs i = (0 \<le> i \<and> i < int (length bs) \<and> bs ! nat i)"


section \<open>Properties of ValCache\<close>

lemma dyn_set_append: "dyn_set d (length d) v = d @ [v]"
  by (simp add: dyn_set_def)

lemma init_drain_eq:
  "length d = j \<Longrightarrow> init_drain i d j s = (d @ i, j + length i, s + int (length i))"
proof (induction i arbitrary: d j s)
  case Nil
  then show ?case by simp
next
  case (Cons v i)
  have len: "length (d @ [v]) = Suc j" using Cons.prems by simp
  have "dyn_set d j v = d @ [v]" using Cons.prems dyn_set_append [of d v] by simp
  then show ?case using Cons.IH [OF len] by simp
qed

lemma init_copy_eq:
  "j \<le> length d \<Longrightarrow> j \<le> length r \<Longrightarrow> init_copy j d r = take j d @ drop j r"
proof (induction j arbitrary: r)
  case 0
  then show ?case by simp
next
  case (Suc j)
  have "init_copy (Suc j) d r = take j d @ drop j (r[j := d ! j])"
    using Suc by simp
  also have "drop j (r[j := d ! j]) = d ! j # drop (Suc j) r"
    using Suc.prems by (simp add: drop_update_cancel Cons_nth_drop_Suc [symmetric] upd_conv_take_nth_drop)
  also have "take j d @ d ! j # drop (Suc j) r = take (Suc j) d @ drop (Suc j) r"
    using Suc.prems by (simp add: take_Suc_conv_app_nth)
  finally show ?case .
qed

lemma vc_init_eq:
  "vc_init xs = \<lparr>vc_r = xs, vc_c = 0, vc_n = int (length xs), vc_s = int (length xs)\<rparr>"
  by (simp add: vc_init_def init_drain_eq init_copy_eq)

lemma vc_size_init: "vc_size (vc_init xs) = length xs"
  by (simp add: vc_init_eq vc_size_def)

lemma traverse_fwd_drop:
  "vc_n C = int (length (vc_r C)) \<Longrightarrow> 0 \<le> vc_c C \<Longrightarrow>
   traverse_fwd C = Some (drop (nat (vc_c C)) (vc_r C))"
proof (induction C rule: traverse_fwd.induct)
  case (1 C)
  show ?case
  proof (cases "vc_valid C")
    case True
    then have lt: "nat (vc_c C) < length (vc_r C)"
      using "1.prems" by (simp add: vc_valid_def)
    then have v: "vc_val C = Some (vc_r C ! nat (vc_c C))"
      using "1.prems" by (simp add: vc_val_def rd_def)
    have "traverse_fwd (vc_inc C) = Some (drop (nat (vc_c (vc_inc C))) (vc_r (vc_inc C)))"
      using "1.IH" [OF True v] "1.prems" by (simp add: vc_inc_def)
    moreover have "nat (vc_c C + 1) = Suc (nat (vc_c C))"
      using "1.prems" by simp
    ultimately show ?thesis
      using True v lt
      by (subst traverse_fwd.simps) (simp add: vc_inc_def Cons_nth_drop_Suc)
  next
    case False
    then have "length (vc_r C) \<le> nat (vc_c C)"
      using "1.prems" by (simp add: vc_valid_def)
    then show ?thesis
      using False by (subst traverse_fwd.simps) simp
  qed
qed

lemma traverse_bwd_take:
  "vc_n C = int (length (vc_r C)) \<Longrightarrow> vc_c C < vc_n C \<Longrightarrow>
   traverse_bwd C = Some (rev (take (nat (vc_c C + 1)) (vc_r C)))"
proof (induction C rule: traverse_bwd.induct)
  case (1 C)
  show ?case
  proof (cases "vc_valid C")
    case True
    then have lt: "nat (vc_c C) < length (vc_r C)" and nn: "0 \<le> vc_c C"
      using "1.prems" by (simp_all add: vc_valid_def)
    then have v: "vc_val C = Some (vc_r C ! nat (vc_c C))"
      using "1.prems" by (simp add: vc_val_def rd_def)
    have "traverse_bwd (vc_dec C) = Some (rev (take (nat (vc_c (vc_dec C) + 1)) (vc_r (vc_dec C))))"
      using "1.IH" [OF True v] "1.prems" by (simp add: vc_dec_def)
    moreover have "nat (vc_c C + 1) = Suc (nat (vc_c C))"
      using nn by simp
    ultimately show ?thesis
      using True v lt
      by (subst traverse_bwd.simps) (simp add: vc_dec_def take_Suc_conv_app_nth)
  next
    case False
    then have "vc_c C + 1 \<le> 0"
      using "1.prems" by (simp add: vc_valid_def)
    then show ?thesis
      using False by (subst traverse_bwd.simps) simp
  qed
qed

lemma cursor_step_frame:
  "vc_r (cursor_step C op) = vc_r C \<and> vc_n (cursor_step C op) = vc_n C \<and> vc_s (cursor_step C op) = vc_s C"
  by (cases op) (simp_all add: vc_inc_def vc_dec_def vc_reset_def vc_last_def vc_finish_def vc_index_set_def)

lemma cursor_steps_frame:
  "vc_r (foldl cursor_step C ops) = vc_r C \<and> vc_n (foldl cursor_step C ops) = vc_n C \<and>
   vc_s (foldl cursor_step C ops) = vc_s C"
  by (induction ops arbitrary: C) (simp_all add: cursor_step_frame)

text \<open>
  Claim C8. After \<open>init\<close> on a source yielding the values \<open>src\<close>, and after any further
  cursor operations, \<open>size()\<close> is the number of values; a forward traversal from \<open>reset()\<close>
  (read \<open>val()\<close>, advance, while the validity test holds) yields \<open>src\<close> in order; a backward
  traversal from \<open>last()\<close> yields \<open>src\<close> reversed; and the validity test holds exactly when
  \<open>-1 < c < n\<close>. This holds for every finite source, in particular for distinct increasing
  values.
\<close>

theorem valcache_traversal:
  "vc_size (foldl cursor_step (vc_init src) ops) = length src \<and>
   traverse_fwd (vc_reset (foldl cursor_step (vc_init src) ops)) = Some src \<and>
   traverse_bwd (vc_last (foldl cursor_step (vc_init src) ops)) = Some (rev src) \<and>
   vc_valid C = (-1 < vc_c C \<and> vc_c C < vc_n C)"
proof -
  let ?C = "foldl cursor_step (vc_init src) ops"
  have fr: "vc_r ?C = src" "vc_n ?C = int (length src)" "vc_s ?C = int (length src)"
    using cursor_steps_frame [of "vc_init src" ops] by (simp_all add: vc_init_eq)
  have "vc_size ?C = length src"
    by (simp add: vc_size_def fr)
  moreover have "traverse_fwd (vc_reset ?C) = Some src"
    using traverse_fwd_drop [of "vc_reset ?C"] by (simp add: vc_reset_def fr)
  moreover have "traverse_bwd (vc_last ?C) = Some (rev src)"
    using traverse_bwd_take [of "vc_last ?C"] by (simp add: vc_last_def fr)
  ultimately show ?thesis
    by (simp add: vc_valid_def)
qed

section \<open>The cardinality window of extcardcheck\<close>

text \<open>
  Claim C2. \<open>extcardcheck\<close> first clips \<open>cr\<close> to the size of the intersection (running it
  with \<open>cr\<close> is running it with the clipped value), and if then \<open>cl\<close> exceeds the size of the
  intersection or the clipped \<open>cr\<close>, it returns the false diagram, as a regular result.
\<close>

theorem extcardcheck_window:
  "extcardcheck x y cl cr = extcardcheck x y cl (min cr (length (common_values x y))) \<and>
   (cl > length (common_values x y) \<or> cl > min cr (length (common_values x y))
      \<longrightarrow> extcardcheck x y cl cr = Some BFalse)"
  by (simp add: extcardcheck_def Let_def vc_size_init min_def)

theorem extcardcheck_window_witness:
  "(5 > length (common_values (range_view 0 0 4) (range_view 4 0 4)) \<or>
    5 > min 3 (length (common_values (range_view 0 0 4) (range_view 4 0 4)))) \<and>
   extcardcheck (range_view 0 0 4) (range_view 4 0 4) 5 3 = Some BFalse"
  using extcardcheck_window [of "range_view 0 0 4" "range_view 4 0 4" 5 3]
  by (simp add: common_values_def range_view_def)

section \<open>Properties of testConsistency\<close>

lemma testConsistency_decomp:
  "testConsistency L glb lub cardMin cardMax =
     (case testConsistency L glb lub 0 0 of
        Inl e \<Rightarrow> Inl e
      | Inr u \<Rightarrow>
          if cardMax < 0 then Inl VariableFailedDomain
          else if nat cardMax > lim_card L then Inl VariableOutOfRangeCardinality
          else if cardMin > cardMax \<or> cardMin < 0 then Inl VariableFailedDomain
          else Inr ())"
  unfolding testConsistency_def Let_def by simp

lemma testConsistency_not_contained:
  assumes "glb \<noteq> []" "lim_min L \<le> is_min glb" "is_max glb \<le> lim_max L"
    and "lub = [] \<or> \<not> (is_min lub \<le> is_min glb \<and> is_max glb \<le> is_max lub)"
  shows "testConsistency L glb lub cardMin cardMax = Inl VariableFailedDomain"
proof (cases "lub = [] \<or> is_min glb > is_max glb")
  case True
  then show ?thesis
    using assms(1) unfolding testConsistency_def Let_def is_size_def by auto
next
  case False
  then have "is_min glb < is_min lub \<or> is_max glb > is_max lub"
    using assms(4) by auto
  then show ?thesis
    using assms(1-3) False unfolding testConsistency_def Let_def is_size_def by auto
qed

text \<open>
  Claim C5, as stated, fails: the checks run in a fixed order, so a required range that is not
  contained in the allowed one, or a window with \<open>cardMin > cardMax\<close>, is reported as
  \<open>VariableOutOfRangeDomain\<close> when a bound lies outside the global limits.
\<close>

theorem testConsistency_ranges_counterexample:
  "testConsistency limits32 [(2, 1073741823)] [(3, 4)] 1 3 = Inl VariableOutOfRangeDomain \<and>
   testConsistency limits32 [(2, 1073741823)] [(0, 1073741823)] 4 2 = Inl VariableOutOfRangeDomain"
  by (simp add: testConsistency_def Let_def is_size_def is_min_def is_max_def limits32_def)

text \<open>
  Claim C5, amended. \<open>testConsistency\<close> returns normally for required \<open>[2,5]\<close>, allowed
  \<open>[0,10]\<close>, \<open>cardMin = 1\<close>, \<open>cardMax = 3\<close> when these lie within the global limits; it
  signals \<open>VariableFailedDomain\<close> whenever the required range is non-empty, lies within the
  global value limits and is not contained in the allowed range; and it signals
  \<open>VariableFailedDomain\<close> whenever \<open>cardMin > cardMax\<close>, the checks of the ranges pass and
  \<open>cardMax\<close> does not exceed the global cardinality limit.
\<close>

theorem testConsistency_ranges:
  "(lim_min L \<le> 0 \<and> 10 \<le> lim_max L \<and> 3 \<le> lim_card L
      \<longrightarrow> testConsistency L [(2, 5)] [(0, 10)] 1 3 = Inr ()) \<and>
   (glb \<noteq> [] \<and> lim_min L \<le> is_min glb \<and> is_max glb \<le> lim_max L \<and>
    (lub = [] \<or> \<not> (is_min lub \<le> is_min glb \<and> is_max glb \<le> is_max lub))
      \<longrightarrow> testConsistency L glb lub cardMin cardMax = Inl VariableFailedDomain) \<and>
   (testConsistency L glb lub 0 0 = Inr () \<and> nat cardMax \<le> lim_card L \<and> cardMin > cardMax
      \<longrightarrow> testConsistency L glb lub cardMin cardMax = Inl VariableFailedDomain)"
proof (intro conjI impI)
  assume "lim_min L \<le> 0 \<and> 10 \<le> lim_max L \<and> 3 \<le> lim_card L"
  then show "testConsistency L [(2, 5)] [(0, 10)] 1 3 = Inr ()"
    by (simp add: testConsistency_def Let_def is_size_def is_min_def is_max_def)
next
  assume "glb \<noteq> [] \<and> lim_min L \<le> is_min glb \<and> is_max glb \<le> lim_max L \<and>
    (lub = [] \<or> \<not> (is_min lub \<le> is_min glb \<and> is_max glb \<le> is_max lub))"
  then show "testConsistency L glb lub cardMin cardMax = Inl VariableFailedDomain"
    using testConsistency_not_contained by blast
next
  assume "testConsistency L glb lub 0 0 = Inr () \<and> nat cardMax \<le> lim_card L \<and> cardMin > cardMax"
  then show "testConsistency L glb lub cardMin cardMax = Inl VariableFailedDomain"
    by (subst testConsistency_decomp) simp
qed

theorem testConsistency_ranges_witness:
  "testConsistency limits32 [(2, 5)] [(0, 10)] 1 3 = Inr () \<and>
   testConsistency limits32 [(2, 5)] [(3, 4)] 1 3 = Inl VariableFailedDomain \<and>
   testConsistency limits32 [(2, 5)] [(0, 10)] 0 0 = Inr () \<and>
   testConsistency limits32 [(2, 5)] [(0, 10)] 4 2 = Inl VariableFailedDomain"
proof -
  have h: "testConsistency limits32 [(2, 5)] [(0, 10)] 0 0 = Inr ()"
    by (simp add: testConsistency_def Let_def is_size_def is_min_def is_max_def limits32_def)
  show ?thesis
    using h testConsistency_ranges [of limits32 "[(2, 5)]" "[(3, 4)]" 1 3]
        testConsistency_ranges [of limits32 "[(2, 5)]" "[(0, 10)]" 4 2]
    by (simp add: limits32_def is_min_def is_max_def)
qed

text \<open>
  Claim C6, as stated, fails: a \<open>cardMax\<close> above the global cardinality limit is reported as
  \<open>VariableOutOfRangeCardinality\<close>, not \<open>VariableOutOfRangeDomain\<close>; a negative \<open>cardMax\<close> is
  not reported as \<open>VariableFailedDomain\<close> when a range check fails first; and a \<open>cardMin\<close>
  outside \<open>[0, cardMax]\<close> is not when \<open>cardMax\<close> is above the limit.
\<close>

theorem testConsistency_card_counterexample:
  "testConsistency limits32 [] [] 0 2147483646 = Inl VariableOutOfRangeCardinality \<and>
   testConsistency limits32 [(2, 1073741823)] [(0, 1073741823)] 0 (- 1) = Inl VariableOutOfRangeDomain \<and>
   testConsistency limits32 [] [] (- 1) 2147483646 = Inl VariableOutOfRangeCardinality"
  by (simp add: testConsistency_def Let_def is_size_def is_min_def is_max_def limits32_def)

text \<open>
  Claim C6, amended. Whenever the checks of the ranges pass, \<open>testConsistency\<close> signals
  \<open>VariableFailedDomain\<close> when \<open>cardMax < 0\<close>, \<open>VariableOutOfRangeCardinality\<close> when
  \<open>cardMax\<close> exceeds the global cardinality limit, and \<open>VariableFailedDomain\<close> when \<open>cardMax\<close>
  is within \<open>[0, limit]\<close> and \<open>cardMin\<close> lies outside \<open>[0, cardMax]\<close>.
\<close>

theorem testConsistency_card:
  "testConsistency L glb lub 0 0 = Inr () \<Longrightarrow>
   (cardMax < 0 \<longrightarrow> testConsistency L glb lub cardMin cardMax = Inl VariableFailedDomain) \<and>
   (0 \<le> cardMax \<and> nat cardMax > lim_card L
      \<longrightarrow> testConsistency L glb lub cardMin cardMax = Inl VariableOutOfRangeCardinality) \<and>
   (0 \<le> cardMax \<and> nat cardMax \<le> lim_card L \<and> (cardMin < 0 \<or> cardMin > cardMax)
      \<longrightarrow> testConsistency L glb lub cardMin cardMax = Inl VariableFailedDomain)"
  by (subst (1 2 3) testConsistency_decomp) auto

theorem testConsistency_card_witness:
  "testConsistency limits32 [(2, 5)] [(0, 10)] 0 0 = Inr () \<and>
   testConsistency limits32 [(2, 5)] [(0, 10)] 0 (- 1) = Inl VariableFailedDomain \<and>
   testConsistency limits32 [(2, 5)] [(0, 10)] 0 2147483646 = Inl VariableOutOfRangeCardinality \<and>
   testConsistency limits32 [(2, 5)] [(0, 10)] 4 2 = Inl VariableFailedDomain"
proof -
  have h: "testConsistency limits32 [(2, 5)] [(0, 10)] 0 0 = Inr ()"
    by (simp add: testConsistency_def Let_def is_size_def is_min_def is_max_def limits32_def)
  show ?thesis
    using h testConsistency_card [OF h, of "- 1" 0] testConsistency_card [OF h, of 2147483646 0]
      testConsistency_card [OF h, of 2 4]
    by (simp add: limits32_def)
qed

section \<open>Loop rules\<close>

lemma for_loop_step:
  "i < n \<Longrightarrow> for_loop body i n s =
     (case body i s of None \<Rightarrow> None
      | Some (s', brk) \<Rightarrow> if brk then Some s' else for_loop body (i + 1) n s')"
  by (subst for_loop.simps) simp

lemma for_loop_done: "\<not> i < n \<Longrightarrow> for_loop body i n s = Some s"
  by (subst for_loop.simps) simp

lemma for_loop_preserves:
  assumes "for_loop body i n s = Some s'" and "P s"
    and "\<And>j t t' b. P t \<Longrightarrow> body j t = Some (t', b) \<Longrightarrow> P t'"
  shows "P s'"
  using assms
proof (induction body i n s rule: for_loop.induct)
  case (1 body i n s)
  show ?case
  proof (cases "i < n")
    case True
    then obtain t b where step: "body i s = Some (t, b)"
      using "1.prems"(1) by (auto simp: for_loop_step split: option.splits)
    have Pt: "P t" using "1.prems"(3) [OF "1.prems"(2) step] .
    show ?thesis
    proof (cases b)
      case True
      then show ?thesis using "1.prems"(1) \<open>i < n\<close> step Pt by (simp add: for_loop_step)
    next
      case False
      then have "for_loop body (i + 1) n t = Some s'"
        using "1.prems"(1) \<open>i < n\<close> step by (simp add: for_loop_step)
      then show ?thesis using "1.IH" [OF \<open>i < n\<close> step refl False _ Pt] "1.prems"(3) by blast
    qed
  next
    case False
    then show ?thesis using "1.prems" by (simp add: for_loop_done)
  qed
qed

lemma cache_loop_preserves:
  assumes "cache_loop inner st = Some st'" and "P st"
    and "\<And>t t'. P t \<Longrightarrow> inner t = Some t' \<Longrightarrow> P t'"
    and "\<And>l C i. P (l, C) \<Longrightarrow> P (l, vc_dec (vc_index_set i C))"
  shows "P st'"
  using assms
proof (induction inner st rule: cache_loop.induct)
  case (1 inner st)
  show ?case
  proof (cases "vc_valid (snd st)")
    case True
    then obtain l C where step: "inner st = Some (l, C)"
      using "1.prems"(1) by (subst (asm) cache_loop.simps) (auto simp: Let_def split: option.splits)
    have Pt: "P (l, C)" using "1.prems"(3) [OF "1.prems"(2) step] .
    show ?thesis
    proof (cases "vc_valid C")
      case False
      then show ?thesis
        using "1.prems"(1) True step Pt by (subst (asm) cache_loop.simps) (simp add: Let_def)
    next
      case v: True
      then have "cache_loop inner (l, vc_dec (vc_index_set (vc_index (snd st)) C)) = Some st'"
        using "1.prems"(1) True step by (subst (asm) cache_loop.simps) (simp add: Let_def)
      moreover have "P (l, vc_dec (vc_index_set (vc_index (snd st)) C))"
        using "1.prems"(4) [OF Pt] .
      ultimately show ?thesis
        using "1.IH" [OF True refl step refl] v "1.prems"(3,4) by blast
    qed
  next
    case False
    then show ?thesis using "1.prems" by (subst (asm) cache_loop.simps) simp
  qed
qed




section \<open>Frame of the builders\<close>

lemma framed_cursor [simp]:
  "framed k C (l, vc_dec D) = framed k C (l, D)"
  "framed k C (l, vc_inc D) = framed k C (l, D)"
  "framed k C (l, vc_last D) = framed k C (l, D)"
  "framed k C (l, vc_finish D) = framed k C (l, D)"
  "framed k C (l, vc_index_set i D) = framed k C (l, D)"
  by (simp_all add: framed_def vc_dec_def vc_inc_def vc_last_def vc_finish_def vc_index_set_def)

lemma wr_length: "wr xs i v = Some ys \<Longrightarrow> length ys = length xs"
  by (auto simp: wr_def split: if_splits)

lemma framed_wr: "wr l i v = Some l' \<Longrightarrow> framed k C (l', D) = framed k C (l, D)"
  by (auto simp: framed_def dest: wr_length)

lemma eq_seed_framed:
  "framed k C t \<Longrightarrow> eq_seed x y xmin ymin j t = Some (t', b) \<Longrightarrow> framed k C t'"
  by (cases t) (auto simp: eq_seed_def framed_wr split: Option.bind_splits)

lemma eq_connect_length:
  "length l = k \<Longrightarrow> eq_connect j l = Some (l', b) \<Longrightarrow> length l' = k"
  by (auto simp: eq_connect_def split: Option.bind_splits dest: wr_length)

lemma eq_inner_framed:
  "framed k C t \<Longrightarrow> eq_inner x y xmin ymin j t = Some (t', b) \<Longrightarrow> framed k C t'"
  by (cases t) (auto simp: eq_inner_def Let_def framed_wr split: Option.bind_splits)

lemma lq_seed_framed:
  "framed k C t \<Longrightarrow> lq_seed x y xmin ymin j t = Some (t', b) \<Longrightarrow> framed k C t'"
  by (cases t) (auto simp: lq_seed_def Let_def framed_wr split: Option.bind_splits)

lemma lq_lower_framed:
  "framed k C t \<Longrightarrow> lq_lower x y xmin ymin cr r j t = Some (t', b) \<Longrightarrow> framed k C t'"
  by (cases t) (auto simp: lq_lower_def Let_def framed_wr split: Option.bind_splits if_splits)

lemma lq_single_framed:
  "framed k C (fst t) \<Longrightarrow> lq_single x y xmin ymin cl n j t = Some (t', b) \<Longrightarrow> framed k C (fst t')"
  by (cases t) (auto simp: lq_single_def Let_def framed_wr split: Option.bind_splits if_splits)

lemma lq_connect_framed:
  "framed k C (fst t) \<Longrightarrow> lq_connect x y xmin ymin cl n j t = Some (t', b) \<Longrightarrow> framed k C (fst t')"
  by (cases t) (auto simp: lq_connect_def Let_def framed_wr split: Option.bind_splits if_splits)

lemma lq_upper_framed:
  "framed k C t \<Longrightarrow> lq_upper x y xmin ymin j t = Some (t', b) \<Longrightarrow> framed k C t'"
  by (cases t) (auto simp: lq_upper_def Let_def framed_wr split: Option.bind_splits)

lemma framed_alloc:
  "wr (replicate k BFalse) i v = Some l \<Longrightarrow> framed k C (l, C)"
  by (auto simp: framed_def dest: wr_length)

lemma framed_fields:
  "framed k C (l, D) \<Longrightarrow> vc_r D = vc_r C \<and> vc_n D = vc_n C \<and> vc_s D = vc_s C"
  by (simp add: framed_def)

lemma framed_length: "framed k C (l, D) \<Longrightarrow> length l = k"
  by (simp add: framed_def)

lemma framed_relayer: "framed k C (l, D) \<Longrightarrow> length l' = k \<Longrightarrow> framed k C (l', D)"
  by (simp add: framed_def)

lemma extcardeq_framed:
  assumes "extcardeq C x y c n r = Some (b, C')"
  shows "vc_r C' = vc_r C \<and> vc_n C' = vc_n C \<and> vc_s C' = vc_s C"
proof -
  let ?k = "nat n"
  let ?xm = "initialLubMin x" and ?ym = "initialLubMin y"
  from assms obtain l0 st1 l1 st2 where
    a: "wr (replicate ?k BFalse) 0 BTrue = Some l0"
    and s1: "for_loop (eq_seed x y ?xm ?ym) 1 (int c + 1) (l0, vc_last C) = Some st1"
    and s2: "for_loop eq_connect 1 n (fst st1) = Some l1"
    and s3: "cache_loop (for_loop (eq_inner x y ?xm ?ym) 0 n) (l1, vc_last (snd st1)) = Some st2"
    and res: "C' = snd st2"
    by (auto simp: extcardeq_def Let_def split: Option.bind_splits)
  have f0: "framed ?k C (l0, vc_last C)"
    using framed_alloc [OF a] by simp
  have f1: "framed ?k C st1"
    by (rule for_loop_preserves [where P = "framed ?k C", OF s1 f0]) (rule eq_seed_framed)
  have "length (fst st1) = ?k"
    using f1 by (simp add: framed_def)
  then have "length l1 = ?k"
    by (rule for_loop_preserves [where P = "\<lambda>l. length l = ?k", OF s2]) (rule eq_connect_length)
  then have f2: "framed ?k C (l1, vc_last (snd st1))"
    using f1 by (simp add: framed_def vc_last_def)
  have inner: "\<And>t t'. framed ?k C t \<Longrightarrow> for_loop (eq_inner x y ?xm ?ym) 0 n t = Some t' \<Longrightarrow> framed ?k C t'"
    by (rule for_loop_preserves [where P = "framed ?k C"]) (auto intro: eq_inner_framed)
  have "framed ?k C st2"
    by (rule cache_loop_preserves [where P = "framed ?k C", OF s3 f2]) (auto intro: inner)
  then show ?thesis
    using res by (simp add: framed_def)
qed

lemma lq_phase1_framed:
  assumes "lq_phase1 C x y cl cr n r = Some st"
  shows "framed (nat n) C st"
proof -
  let ?k = "nat n"
  let ?xm = "initialLubMin x" and ?ym = "initialLubMin y"
  from assms obtain l0 st1 where
    a: "wr (replicate ?k BFalse) (n - int cl - 1) BTrue = Some l0"
    and s1: "for_loop (lq_seed x y ?xm ?ym) (n - int cl) n (l0, vc_last C) = Some st1"
    and s2: "cache_loop (for_loop (lq_lower x y ?xm ?ym cr r) (n - int cl) n)
               (fst st1, vc_dec (vc_last (snd st1))) = Some st"
    by (auto simp: lq_phase1_def Let_def split: Option.bind_splits)
  have f0: "framed ?k C (l0, vc_last C)"
    using framed_alloc [OF a] by simp
  have f1: "framed ?k C st1"
    by (rule for_loop_preserves [where P = "framed ?k C", OF s1 f0]) (rule lq_seed_framed)
  then have f2: "framed ?k C (fst st1, vc_dec (vc_last (snd st1)))"
    by (cases st1) simp
  have inner: "\<And>t t'. framed ?k C t \<Longrightarrow>
      for_loop (lq_lower x y ?xm ?ym cr r) (n - int cl) n t = Some t' \<Longrightarrow> framed ?k C t'"
    by (rule for_loop_preserves [where P = "framed ?k C"]) (auto intro: lq_lower_framed)
  show ?thesis
    by (rule cache_loop_preserves [where P = "framed ?k C", OF s2 f2]) (auto intro: inner)
qed

lemma lq_single_pass_framed:
  assumes "lq_single_pass x y cl n st = Some st'" and "framed k C st"
  shows "framed k C st'"
proof -
  let ?xm = "initialLubMin x" and ?ym = "initialLubMin y"
  from assms(1) obtain u where
    s1: "for_loop (lq_single x y ?xm ?ym cl n) 0 n ((fst st, vc_last (snd st)), BTrue, BTrue) = Some u"
    and res: "st' = fst u"
    by (auto simp: lq_single_pass_def Let_def split: Option.bind_splits)
  have f0: "framed k C (fst ((fst st, vc_last (snd st)), BTrue, BTrue))"
    using assms(2) by (cases st) simp
  have "framed k C (fst u)"
    by (rule for_loop_preserves [OF s1, where P = "\<lambda>t. framed k C (fst t)", OF f0])
       (rule lq_single_framed)
  then show ?thesis using res by simp
qed

lemma lq_two_phase_framed:
  assumes "lq_two_phase x y cl n st = Some st'" and "framed k C st"
  shows "framed k C st'"
proof -
  let ?xm = "initialLubMin x" and ?ym = "initialLubMin y"
  from assms(1) obtain u where
    s1: "for_loop (lq_connect x y ?xm ?ym cl n) 0 n ((fst st, vc_last (snd st)), BTrue, BTrue) = Some u"
    and s2: "cache_loop (for_loop (lq_upper x y ?xm ?ym) 0 n)
               (fst (fst u), vc_dec (vc_last (snd (fst u)))) = Some st'"
    by (auto simp: lq_two_phase_def Let_def split: Option.bind_splits prod.splits)
  have f0: "framed k C (fst ((fst st, vc_last (snd st)), BTrue, BTrue))"
    using assms(2) by (cases st) simp
  have "framed k C (fst u)"
    by (rule for_loop_preserves [OF s1, where P = "\<lambda>t. framed k C (fst t)", OF f0])
       (rule lq_connect_framed)
  then have f1: "framed k C (fst (fst u), vc_dec (vc_last (snd (fst u))))"
    by (cases "fst u") simp
  have inner: "\<And>t t'. framed k C t \<Longrightarrow>
      for_loop (lq_upper x y ?xm ?ym) 0 n t = Some t' \<Longrightarrow> framed k C t'"
    by (rule for_loop_preserves [where P = "framed k C"]) (auto intro: lq_upper_framed)
  show ?thesis
    by (rule cache_loop_preserves [where P = "framed k C", OF s2 f1]) (auto intro: inner)
qed

lemma extcardlqgq_state_framed:
  assumes "extcardlqgq_state C x y cl cr n r = Some st"
  shows "framed (nat n) C st"
proof -
  from assms obtain st1 where
    p1: "lq_phase1 C x y cl cr n r = Some st1"
    and rest: "(if int cr = r + 1 then Some st1
                else if int cr = r then lq_single_pass x y cl n st1
                else lq_two_phase x y cl n st1) = Some st"
    by (auto simp: extcardlqgq_state_def split: Option.bind_splits)
  have f1: "framed (nat n) C st1"
    using lq_phase1_framed [OF p1] .
  show ?thesis
    using rest f1 lq_single_pass_framed lq_two_phase_framed
    by (auto split: if_splits)
qed

text \<open>
  Claim C10. Whenever \<open>extcardeq\<close> or \<open>extcardlqgq\<close> returns, the cache it was given has its
  value array \<open>r\<close>, its range count \<open>n\<close> and its element count \<open>s\<close> unchanged: only the
  cursor \<open>c\<close> may differ.
\<close>

theorem builders_frame:
  "(extcardeq C x y c n r = Some (b, C')
      \<longrightarrow> vc_r C' = vc_r C \<and> vc_n C' = vc_n C \<and> vc_s C' = vc_s C) \<and>
   (extcardlqgq C x y cl cr n r = Some (b, C')
      \<longrightarrow> vc_r C' = vc_r C \<and> vc_n C' = vc_n C \<and> vc_s C' = vc_s C)"
proof (rule conjI; rule impI)
  assume "extcardeq C x y c n r = Some (b, C')"
  then show "vc_r C' = vc_r C \<and> vc_n C' = vc_n C \<and> vc_s C' = vc_s C"
    by (rule extcardeq_framed)
next
  assume "extcardlqgq C x y cl cr n r = Some (b, C')"
  then obtain st where "extcardlqgq_state C x y cl cr n r = Some st" and "C' = snd st"
    by (auto simp: extcardlqgq_def split: Option.bind_splits)
  then show "vc_r C' = vc_r C \<and> vc_n C' = vc_n C \<and> vc_s C' = vc_s C"
    using extcardlqgq_state_framed [of C x y cl cr n r st] by (simp add: framed_def)
qed



theorem builders_frame_witness:
  "(case extcardeq (vc_init [0, 1, 2, 3]) (range_view 0 0 4) (range_view 4 0 4) 2 3 3 of
      None \<Rightarrow> False
    | Some (b, C') \<Rightarrow> vc_r C' = [0, 1, 2, 3] \<and> vc_n C' = 4 \<and> vc_s C' = 4) \<and>
   (case extcardlqgq (vc_init [0, 1, 2, 3]) (range_view 0 0 4) (range_view 4 0 4) 1 2 3 3 of
      None \<Rightarrow> False
    | Some (b, C') \<Rightarrow> vc_r C' = [0, 1, 2, 3] \<and> vc_n C' = 4 \<and> vc_s C' = 4)"
proof -
  let ?C = "vc_init [0, 1, 2, 3]" and ?x = "range_view 0 0 4" and ?y = "range_view 4 0 4"
  have "extcardeq ?C ?x ?y 2 3 3 \<noteq> None"
    by code_simp
  then obtain b C' where e: "extcardeq ?C ?x ?y 2 3 3 = Some (b, C')"
    by (cases "extcardeq ?C ?x ?y 2 3 3") auto
  have "extcardlqgq ?C ?x ?y 1 2 3 3 \<noteq> None"
    by code_simp
  then obtain b2 C2 where e2: "extcardlqgq ?C ?x ?y 1 2 3 3 = Some (b2, C2)"
    by (cases "extcardlqgq ?C ?x ?y 1 2 3 3") auto
  have "vc_r C' = vc_r ?C \<and> vc_n C' = vc_n ?C \<and> vc_s C' = vc_s ?C"
    using builders_frame [of ?C ?x ?y 2 3 3 b C'] e by blast
  moreover have "vc_r C2 = vc_r ?C \<and> vc_n C2 = vc_n ?C \<and> vc_s C2 = vc_s ?C"
    using builders_frame [of ?C ?x ?y _ _ _ b2 C2 1 2] e2 by blast
  ultimately show ?thesis
    using e e2 by (simp add: vc_init_eq)
qed

section \<open>The branch for one layer above the window\<close>












section \<open>The fast paths of extcardcheck\<close>

lemma conj_all_Cons:
  "conj_all lit x y acc (v # vs) =
   conj_all lit x y (And acc (And (lit x (v - initialLubMin x)) (lit y (v - initialLubMin y)))) vs"
  by (simp add: conj_all_def)

lemma conj_all_Nil: "conj_all lit x y acc [] = acc"
  by (simp add: conj_all_def)

lemma eval_conj_all:
  "eval env (conj_all lit x y acc vs) =
     (eval env acc \<and> (\<forall>v \<in> set vs. eval env (lit x (v - initialLubMin x)) \<and>
                                     eval env (lit y (v - initialLubMin y))))"
  by (induction vs arbitrary: acc) (auto simp: conj_all_Cons conj_all_Nil)

lemma conj_loop_eq:
  assumes "vc_n C = int (length (vc_r C))" and "0 \<le> vc_c C"
    and "list_all (\<lambda>v. v \<ge> initialLubMin x \<and> v \<le> initialLubMax x \<and>
                       v \<ge> initialLubMin y \<and> v \<le> initialLubMax y) (drop (nat (vc_c C)) (vc_r C))"
  shows "map_option fst (conj_loop lit x y acc C) =
           Some (conj_all lit x y acc (drop (nat (vc_c C)) (vc_r C)))"
  using assms
proof (induction lit x y acc C rule: conj_loop.induct)
  case (1 lit x y acc C)
  show ?case
  proof (cases "vc_valid C")
    case True
    then have lt: "nat (vc_c C) < length (vc_r C)"
      using "1.prems" by (simp add: vc_valid_def)
    let ?v = "vc_r C ! nat (vc_c C)"
    have v: "vc_min C = Some ?v"
      using lt "1.prems" by (simp add: vc_min_def rd_def)
    have dr: "drop (nat (vc_c C)) (vc_r C) = ?v # drop (nat (vc_c (vc_inc C))) (vc_r (vc_inc C))"
      using lt "1.prems"(2) by (simp add: vc_inc_def Cons_nth_drop_Suc nat_add_distrib)
    have ok: "?v \<ge> initialLubMin x \<and> ?v \<le> initialLubMax x \<and>
              ?v \<ge> initialLubMin y \<and> ?v \<le> initialLubMax y"
      and rest: "list_all (\<lambda>v. v \<ge> initialLubMin x \<and> v \<le> initialLubMax x \<and>
                       v \<ge> initialLubMin y \<and> v \<le> initialLubMax y)
                   (drop (nat (vc_c (vc_inc C))) (vc_r (vc_inc C)))"
      using "1.prems"(3) unfolding dr by simp_all
    have "map_option fst (conj_loop lit x y
            (And acc (And (lit x (?v - initialLubMin x)) (lit y (?v - initialLubMin y)))) (vc_inc C)) =
          Some (conj_all lit x y
            (And acc (And (lit x (?v - initialLubMin x)) (lit y (?v - initialLubMin y))))
            (drop (nat (vc_c (vc_inc C))) (vc_r (vc_inc C))))"
      using "1.IH" [OF True v ok _ _ rest] "1.prems" by (simp add: vc_inc_def)
    then show ?thesis
      using True v ok by (subst conj_loop.simps) (simp add: dr conj_all_Cons)
  next
    case False
    then have "drop (nat (vc_c C)) (vc_r C) = []"
      using "1.prems" by (simp add: vc_valid_def)
    then show ?thesis
      using False by (subst conj_loop.simps) (simp add: conj_all_def)
  qed
qed

lemma conj_loop_init:
  "within_bounds x y \<Longrightarrow>
   map_option fst (conj_loop lit x y BTrue (vc_init (common_values x y))) =
     Some (conj_all lit x y BTrue (common_values x y))"
  using conj_loop_eq [of "vc_init (common_values x y)" x y lit BTrue]
  by (simp add: vc_init_eq within_bounds_def)

text \<open>
  Claim C4. For views whose common values lie within their original bounds, and a consistent
  window: when \<open>cr\<close> (after clipping) is 0, \<open>extcardcheck\<close> returns the conjunction, over every
  common value, of both negated literals, so only assignments with all these literals false
  accept; when \<open>cl\<close> and the clipped \<open>cr\<close> both equal the intersection size, it returns the
  conjunction of both positive literals, so only assignments with all of them true accept; when
  \<open>cl = 0\<close> and the clipped \<open>cr\<close> is the intersection size, it returns the true diagram.
\<close>

theorem extcardcheck_fast_paths:
  assumes "within_bounds x y"
  shows "(cl = 0 \<and> min cr (length (common_values x y)) = 0 \<longrightarrow>
            extcardcheck x y cl cr = Some (conj_all elementNeg x y BTrue (common_values x y))) \<and>
         (eval env (conj_all elementNeg x y BTrue (common_values x y)) \<longleftrightarrow>
            (\<forall>v \<in> set (common_values x y). \<not> env (slot x v) \<and> \<not> env (slot y v))) \<and>
         (cl = length (common_values x y) \<and> length (common_values x y) \<le> cr \<longrightarrow>
            extcardcheck x y cl cr = Some (conj_all element x y BTrue (common_values x y))) \<and>
         (eval env (conj_all element x y BTrue (common_values x y)) \<longleftrightarrow>
            (\<forall>v \<in> set (common_values x y). env (slot x v) \<and> env (slot y v))) \<and>
         (cl = 0 \<and> length (common_values x y) \<le> cr \<longrightarrow> extcardcheck x y cl cr = Some BTrue)"
proof (intro conjI impI)
  assume "cl = 0 \<and> min cr (length (common_values x y)) = 0"
  then show "extcardcheck x y cl cr = Some (conj_all elementNeg x y BTrue (common_values x y))"
    using conj_loop_init [OF assms, of elementNeg]
    by (simp add: extcardcheck_def Let_def vc_size_init min_def split: if_splits)
next
  show "eval env (conj_all elementNeg x y BTrue (common_values x y)) \<longleftrightarrow>
          (\<forall>v \<in> set (common_values x y). \<not> env (slot x v) \<and> \<not> env (slot y v))"
    by (simp add: eval_conj_all elementNeg_def slot_def)
next
  assume h: "cl = length (common_values x y) \<and> length (common_values x y) \<le> cr"
  show "extcardcheck x y cl cr = Some (conj_all element x y BTrue (common_values x y))"
  proof (cases "common_values x y = []")
    case True
    then show ?thesis
      using h conj_loop_init [OF assms, of elementNeg]
      by (simp add: extcardcheck_def Let_def vc_size_init conj_all_def)
  next
    case False
    then show ?thesis
      using h conj_loop_init [OF assms, of element]
      by (auto simp: extcardcheck_def Let_def vc_size_init)
  qed
next
  show "eval env (conj_all element x y BTrue (common_values x y)) \<longleftrightarrow>
          (\<forall>v \<in> set (common_values x y). env (slot x v) \<and> env (slot y v))"
    by (simp add: eval_conj_all element_def slot_def)
next
  assume h: "cl = 0 \<and> length (common_values x y) \<le> cr"
  show "extcardcheck x y cl cr = Some BTrue"
  proof (cases "common_values x y = []")
    case True
    then show ?thesis
      using h conj_loop_init [OF assms, of elementNeg]
      by (simp add: extcardcheck_def Let_def vc_size_init conj_all_def)
  next
    case False
    then show ?thesis
      using h by (auto simp: extcardcheck_def Let_def vc_size_init)
  qed
qed

theorem extcardcheck_fast_paths_witness:
  "within_bounds (range_view 0 0 4) (range_view 4 0 4) \<and>
   extcardcheck (range_view 0 0 4) (range_view 4 0 4) 0 0 =
     Some (conj_all elementNeg (range_view 0 0 4) (range_view 4 0 4) BTrue [0, 1, 2, 3]) \<and>
   extcardcheck (range_view 0 0 4) (range_view 4 0 4) 4 4 =
     Some (conj_all element (range_view 0 0 4) (range_view 4 0 4) BTrue [0, 1, 2, 3]) \<and>
   extcardcheck (range_view 0 0 4) (range_view 4 0 4) 0 4 = Some BTrue \<and>
   \<not> eval (env_of [0]) (conj_all elementNeg (range_view 0 0 4) (range_view 4 0 4) BTrue [0, 1, 2, 3]) \<and>
   eval (env_of []) (conj_all elementNeg (range_view 0 0 4) (range_view 4 0 4) BTrue [0, 1, 2, 3])"
proof -
  let ?x = "range_view 0 0 4" and ?y = "range_view 4 0 4"
  have cv: "common_values ?x ?y = [0, 1, 2, 3]"
    by code_simp
  have wb: "within_bounds ?x ?y"
    by code_simp
  show ?thesis
    using wb cv extcardcheck_fast_paths [OF wb, of 0 0 "env_of [0]"]
      extcardcheck_fast_paths [OF wb, of 4 4 "env_of []"]
      extcardcheck_fast_paths [OF wb, of 0 4 "env_of []"]
    by (simp add: env_of_def slot_def range_view_def)
qed

section \<open>Counting the shared values\<close>

text \<open>
  Claim C1 fails on the code at two places. With three common values and the window \<open>[2,2]\<close>
  (\<open>extcardeq\<close>), the assignment in which both sets hold only the largest value shares one
  value and is accepted. With the window \<open>[0,0]\<close>, the assignment in which only the first set
  holds the value 0 shares no value and is rejected.
\<close>

theorem extcardcheck_count_failures:
  "map_option (eval (env_of [2, 5])) (extcardcheck (range_view 0 0 3) (range_view 3 0 3) 2 2) = Some True \<and>
   shared_count (range_view 0 0 3) (range_view 3 0 3) (env_of [2, 5]) = 1 \<and>
   map_option (eval (env_of [0])) (extcardcheck (range_view 0 0 3) (range_view 3 0 3) 0 0) = Some False \<and>
   shared_count (range_view 0 0 3) (range_view 3 0 3) (env_of [0]) = 0"
  by code_simp

text \<open>
  The example of the claim holds: with four common values and the window \<open>[1,3]\<close>
  (\<open>extcardlqgq\<close>), the diagram accepts an assignment exactly when it puts one, two or three
  of the values into both sets; of the 16 ways to choose the shared values, 14 are accepted.
\<close>

lemma eval_agree:
  "\<forall>i \<in> set (vars b). env i = env' i \<Longrightarrow> eval env b = eval env' b"
  by (induction b) auto

lemma env_bits_map:
  "0 \<le> i \<Longrightarrow> i < int k \<Longrightarrow> env_bits (map (\<lambda>j. env (int j)) [0..<k]) i = env i"
proof -
  assume a: "0 \<le> i" "i < int k"
  then have "nat i < k" "int (nat i) = i" by simp_all
  then show ?thesis using a by (simp add: env_bits_def)
qed

lemma bits_in_n_lists: "map (\<lambda>j. env (int j)) [0..<k] \<in> set (List.n_lists k [False, True])"
  by (auto simp: set_n_lists)

lemma window_1_3_check:
  "list_all (\<lambda>bs. map_option (eval (env_bits bs)) (extcardcheck (range_view 0 0 4) (range_view 4 0 4) 1 3) =
        Some (1 \<le> shared_count (range_view 0 0 4) (range_view 4 0 4) (env_bits bs) \<and>
              shared_count (range_view 0 0 4) (range_view 4 0 4) (env_bits bs) \<le> 3))
     (List.n_lists 8 [False, True])"
  by code_simp


lemma window_1_3_vars:
  "list_all (\<lambda>i. 0 \<le> i \<and> i < 8)
     (case extcardcheck (range_view 0 0 4) (range_view 4 0 4) 1 3 of None \<Rightarrow> [8] | Some b \<Rightarrow> vars b)"
  by code_simp

lemma window_1_3_shared:
  "shared_count (range_view 0 0 4) (range_view 4 0 4) env =
   length (filter (\<lambda>v. env v \<and> env (4 + v)) [0, 1, 2, 3])"
proof -
  have "common_values (range_view 0 0 4) (range_view 4 0 4) = [0, 1, 2, 3]"
    by code_simp
  then show ?thesis
    by (simp add: shared_count_def in_both_def slot_def range_view_def)
qed

lemma extcardcheck_window_1_3:
  "map_option (eval env) (extcardcheck (range_view 0 0 4) (range_view 4 0 4) 1 3) =
     Some (1 \<le> shared_count (range_view 0 0 4) (range_view 4 0 4) env \<and>
           shared_count (range_view 0 0 4) (range_view 4 0 4) env \<le> 3)"
proof -
  let ?x = "range_view 0 0 4" and ?y = "range_view 4 0 4"
  let ?bs = "map (\<lambda>j. env (int j)) [0..<8]"
  have same: "\<And>i. 0 \<le> i \<Longrightarrow> i < 8 \<Longrightarrow> env_bits ?bs i = env i"
    using env_bits_map [of _ 8 env] by simp
  have chk: "map_option (eval (env_bits ?bs)) (extcardcheck ?x ?y 1 3) =
        Some (1 \<le> shared_count ?x ?y (env_bits ?bs) \<and> shared_count ?x ?y (env_bits ?bs) \<le> 3)"
    using window_1_3_check bits_in_n_lists [of env 8] unfolding list_all_iff by blast
  then obtain b where b: "extcardcheck ?x ?y 1 3 = Some b"
    by (cases "extcardcheck ?x ?y 1 3") auto
  have "\<forall>i \<in> set (vars b). 0 \<le> i \<and> i < 8"
    using window_1_3_vars b by (simp add: list_all_iff)
  then have "eval (env_bits ?bs) b = eval env b"
    using same by (intro eval_agree) simp
  moreover have "shared_count ?x ?y (env_bits ?bs) = shared_count ?x ?y env"
    unfolding window_1_3_shared using same by simp
  ultimately show ?thesis
    using chk b by simp
qed

lemma extcardcheck_window_1_3_count:
  "length (filter (\<lambda>S. map_option (eval (env_of (S @ map (\<lambda>v. 4 + v) S)))
        (extcardcheck (range_view 0 0 4) (range_view 4 0 4) 1 3) = Some True)
     (subseqs [0, 1, 2, 3])) = 14"
  by code_simp

section \<open>Determinism of extcardcheck\<close>


lemma elementNeg_agree: "offset x' = offset x \<Longrightarrow> elementNeg x' = elementNeg x"
  by (simp add: elementNeg_def fun_eq_iff)






section \<open>The order installed by variableorder\<close>



















end
